theory Spec2Isabelle
  imports Main "HOL-Library.Multiset"
begin

section \<open>Set diffing and set materialisation of the revision layer\<close>

text \<open>
  The development follows the TypeScript module that exports \<open>getComparisonFunc\<close>,
  \<open>getUnchangedItems\<close>, \<open>getAddedItems\<close>, \<open>getRemovedItems\<close>,
  \<open>createNewSetWithItems\<close> and \<open>createNewRelationshipAttributeSetWithItems\<close>.
  Two libraries it calls are not part of the repository: lodash (array and object
  helpers) and the object-relational mapper. Both are written out below, lodash after
  its implementation (release 4.17.21) and the mapper as a log of the calls made to it.
\<close>

subsection \<open>The lodash array helpers used by the differ\<close>

text \<open>
  lodash \<open>arrayIncludesWith(array, value, comparator)\<close>: scans \<open>array\<close> from the left
  and answers true at the first element \<open>x\<close> with \<open>comparator(value, x)\<close>. The searched
  value is always the first argument of the comparator.
\<close>

fun arrayIncludesWith :: "'a list \<Rightarrow> 'a \<Rightarrow> ('a \<Rightarrow> 'a \<Rightarrow> bool) \<Rightarrow> bool" where
  "arrayIncludesWith [] v comparator = False"
| "arrayIncludesWith (x # array) v comparator =
     (if comparator v x then True else arrayIncludesWith array v comparator)"

text \<open>
  lodash \<open>baseUniq\<close> with a comparator: the loop pushes an element onto \<open>result\<close>
  unless \<open>result\<close> already includes it under the comparator.
\<close>

fun baseUniq :: "'a list \<Rightarrow> ('a \<Rightarrow> 'a \<Rightarrow> bool) \<Rightarrow> 'a list \<Rightarrow> 'a list" where
  "baseUniq [] comparator result = result"
| "baseUniq (v # array) comparator result =
     (if \<not> arrayIncludesWith result v comparator
      then baseUniq array comparator (result @ [v])
      else baseUniq array comparator result)"

definition uniqWith :: "'a list \<Rightarrow> ('a \<Rightarrow> 'a \<Rightarrow> bool) \<Rightarrow> 'a list" where
  "uniqWith array comparator = (if array \<noteq> [] then baseUniq array comparator [] else [])"

text \<open>
  lodash \<open>baseDifference\<close> with a comparator: the loop pushes an element of \<open>array\<close>
  unless \<open>values\<close> includes it under the comparator.
\<close>

fun baseDifference :: "'a list \<Rightarrow> 'a list \<Rightarrow> ('a \<Rightarrow> 'a \<Rightarrow> bool) \<Rightarrow> 'a list \<Rightarrow> 'a list" where
  "baseDifference [] vals comparator result = result"
| "baseDifference (v # array) vals comparator result =
     (if \<not> arrayIncludesWith vals v comparator
      then baseDifference array vals comparator (result @ [v])
      else baseDifference array vals comparator result)"

definition differenceWith :: "'a list \<Rightarrow> 'a list \<Rightarrow> ('a \<Rightarrow> 'a \<Rightarrow> bool) \<Rightarrow> 'a list" where
  "differenceWith array vals comparator = baseDifference array vals comparator []"

text \<open>
  lodash \<open>baseIntersection\<close> for two arrays and a comparator. \<open>maxLength\<close> is the
  length of the shorter array; the loop runs while elements of the first array remain
  \<^emph>\<open>and\<close> \<open>result\<close> is shorter than \<open>maxLength\<close>. An element is pushed when \<open>result\<close>
  does not include it yet and the other array includes it.
\<close>

fun baseIntersection :: "'a list \<Rightarrow> 'a list \<Rightarrow> ('a \<Rightarrow> 'a \<Rightarrow> bool) \<Rightarrow> nat \<Rightarrow> 'a list \<Rightarrow> 'a list" where
  "baseIntersection [] other comparator maxLength result = result"
| "baseIntersection (v # array) other comparator maxLength result =
     (if length result < maxLength
      then (if \<not> arrayIncludesWith result v comparator \<and> arrayIncludesWith other v comparator
            then baseIntersection array other comparator maxLength (result @ [v])
            else baseIntersection array other comparator maxLength result)
      else result)"

definition intersectionWith :: "'a list \<Rightarrow> 'a list \<Rightarrow> ('a \<Rightarrow> 'a \<Rightarrow> bool) \<Rightarrow> 'a list" where
  "intersectionWith array other comparator =
     baseIntersection array other comparator (min (length array) (length other)) []"

subsection \<open>The differ\<close>

definition getUnchangedItems :: "'a list \<Rightarrow> 'a list \<Rightarrow> ('a \<Rightarrow> 'a \<Rightarrow> bool) \<Rightarrow> 'a list" where
  "getUnchangedItems oldSet newSet comparisonFunc =
     uniqWith (intersectionWith oldSet newSet comparisonFunc) comparisonFunc"

definition getAddedItems :: "'a list \<Rightarrow> 'a list \<Rightarrow> ('a \<Rightarrow> 'a \<Rightarrow> bool) \<Rightarrow> 'a list" where
  "getAddedItems oldSet newSet comparisonFunc =
     uniqWith (differenceWith newSet oldSet comparisonFunc) comparisonFunc"

definition getRemovedItems :: "'a list \<Rightarrow> 'a list \<Rightarrow> ('a \<Rightarrow> 'a \<Rightarrow> bool) \<Rightarrow> 'a list" where
  "getRemovedItems oldSet newSet comparisonFunc =
     uniqWith (differenceWith oldSet newSet comparisonFunc) comparisonFunc"

text \<open>
  Deduplication as the specification words it: equivalent items collapse to one
  representative, the first one met. It is compared with lodash's \<open>uniqWith\<close> below.
\<close>

fun dedup :: "('a \<Rightarrow> 'a \<Rightarrow> bool) \<Rightarrow> 'a list \<Rightarrow> 'a list" where
  "dedup cmp [] = []"
| "dedup cmp (x # xs) = x # dedup cmp (filter (\<lambda>y. \<not> cmp y x) xs)"

subsection \<open>JavaScript values and the comparator\<close>

text \<open>
  The values a field of an item can hold. A number is either finite (an integer here,
  as identifiers and type ids are) or \<open>NaN\<close>. An object value carries the reference
  that identifies it and its own properties; an item itself is such a property list.
  Items and the objects nested in them are plain objects: their own properties are
  enumerable and configurable data properties, and their prototype is
  \<open>Object.prototype\<close>. Arrays and instances of classes are not represented; a function,
  such as the built-ins that \<open>Object.prototype\<close> holds, is represented by its identity.
\<close>

datatype jsval =
    JUndefined
  | JNull
  | JBool bool
  | JNum int
  | JNaN
  | JStr string
  | JObj nat "(string \<times> jsval) list"

type_synonym obj = "(string \<times> jsval) list"

text \<open>
  What the module and lodash take from their surroundings, as parameters:
  \<^item> \<open>object_prototype\<close>: the properties every plain object inherits from
    \<open>Object.prototype\<close> (\<open>constructor\<close>, \<open>toString\<close>, ...), none of them enumerable;
  \<^item> \<open>primitive_get\<close>: the read \<open>v[key]\<close> of a property of a string, a number or a
    boolean (the length of a string, the methods of its wrapper's prototype);
  \<^item> \<open>reIsDeepProp\<close> and \<open>stringToPath\<close>: lodash's test for a property path and its
    parser of a path into keys, both driven by regular expressions.
\<close>

record js_env =
  object_prototype :: obj
  primitive_get :: "jsval \<Rightarrow> string \<Rightarrow> jsval"
  reIsDeepProp :: "string \<Rightarrow> bool"
  stringToPath :: "string \<Rightarrow> string list"

text \<open>
  Strict equality \<open>===\<close>: primitives of one type compare by content, objects by
  reference, and \<open>NaN\<close> equals nothing, itself included.
\<close>

fun strict_eq :: "jsval \<Rightarrow> jsval \<Rightarrow> bool" where
  "strict_eq JUndefined JUndefined = True"
| "strict_eq JNull JNull = True"
| "strict_eq (JBool a) (JBool b) = (a = b)"
| "strict_eq (JNum a) (JNum b) = (a = b)"
| "strict_eq (JStr a) (JStr b) = (a = b)"
| "strict_eq (JObj r fs) (JObj s gs) = (r = s)"
| "strict_eq a b = False"

text \<open>
  Property access \<open>obj[field]\<close> on an object: the own property if there is one, else the
  property inherited from \<open>Object.prototype\<close>, else \<open>undefined\<close>. \<open>js_in\<close> is the test
  \<open>field in obj\<close>, which also sees inherited properties.
\<close>

definition js_get :: "js_env \<Rightarrow> obj \<Rightarrow> string \<Rightarrow> jsval" where
  "js_get env object field =
     (case map_of object field of
        Some v \<Rightarrow> v
      | None \<Rightarrow>
          (case map_of (object_prototype env) field of Some v \<Rightarrow> v | None \<Rightarrow> JUndefined))"

definition js_in :: "js_env \<Rightarrow> obj \<Rightarrow> string \<Rightarrow> bool" where
  "js_in env object field =
     (map_of object field \<noteq> None \<or> map_of (object_prototype env) field \<noteq> None)"

text \<open>
  The read \<open>v[key]\<close> on any value that is not \<open>undefined\<close> or \<open>null\<close> (on those the
  read throws; every use below is guarded).
\<close>

fun get_prop :: "js_env \<Rightarrow> jsval \<Rightarrow> string \<Rightarrow> jsval" where
  "get_prop env (JObj r props) key = js_get env props key"
| "get_prop env JUndefined key = JUndefined"
| "get_prop env JNull key = JUndefined"
| "get_prop env v key = primitive_get env v key"

text \<open>
  The function \<open>Cmp\<close> returned by \<open>getComparisonFunc\<close>: the loop over
  \<open>compareFields\<close> returns false at the first field on which the two objects differ
  under \<open>!==\<close>, and true after the last field.
\<close>

fun Cmp :: "js_env \<Rightarrow> string list \<Rightarrow> obj \<Rightarrow> obj \<Rightarrow> bool" where
  "Cmp env [] object other = True"
| "Cmp env (field # compareFields) object other =
     (if \<not> strict_eq (js_get env object field) (js_get env other field) then False
      else Cmp env compareFields object other)"

definition getComparisonFunc :: "js_env \<Rightarrow> string list \<Rightarrow> obj \<Rightarrow> obj \<Rightarrow> bool" where
  "getComparisonFunc env compareFields = (\<lambda>object other. Cmp env compareFields object other)"

subsection \<open>lodash property paths\<close>

text \<open>
  lodash reads a string either as one key or as a path of keys. \<open>reIsPlainProp\<close> is
  \<open>/^\w*$/\<close>: every character is a letter, a digit or an underscore. \<open>isKey(value)\<close>
  holds for a plain name or a string that does not look like a path; with an object,
  \<open>isKey(value, object)\<close> also holds when the string is the name of a property of the
  object. \<open>castPath\<close> returns the single key, or parses the path.
\<close>

definition is_word_char :: "char \<Rightarrow> bool" where
  "is_word_char c =
     (c \<in> set ''abcdefghijklmnopqrstuvwxyzABCDEFGHIJKLMNOPQRSTUVWXYZ0123456789_'')"

definition reIsPlainProp :: "string \<Rightarrow> bool" where
  "reIsPlainProp s = list_all is_word_char s"

definition isKey :: "js_env \<Rightarrow> string \<Rightarrow> bool" where
  "isKey env s = (reIsPlainProp s \<or> \<not> reIsDeepProp env s)"

definition isKey_in :: "js_env \<Rightarrow> string \<Rightarrow> obj \<Rightarrow> bool" where
  "isKey_in env s object = (isKey env s \<or> js_in env object s)"

definition castPath :: "js_env \<Rightarrow> string \<Rightarrow> obj \<Rightarrow> string list" where
  "castPath env s object = (if isKey_in env s object then [s] else stringToPath env s)"

text \<open>
  lodash \<open>baseGet(object, path)\<close>: the loop reads one key after the other while the
  value is neither \<open>undefined\<close> nor \<open>null\<close>, and the result is the value reached when
  the whole path was read, \<open>undefined\<close> otherwise (also for an empty path).
\<close>

fun baseGet_loop :: "js_env \<Rightarrow> jsval \<Rightarrow> string list \<Rightarrow> jsval" where
  "baseGet_loop env v [] = v"
| "baseGet_loop env v (key # path) =
     (if v = JUndefined \<or> v = JNull then JUndefined
      else baseGet_loop env (get_prop env v key) path)"

definition baseGet :: "js_env \<Rightarrow> obj \<Rightarrow> string list \<Rightarrow> jsval" where
  "baseGet env object path =
     (case path of [] \<Rightarrow> JUndefined | key # rest \<Rightarrow> baseGet_loop env (js_get env object key) rest)"

text \<open>
  The iteratee of \<open>_.map(items, idAttribute)\<close>, lodash \<open>property(path)\<close>: a plain read
  for a key, \<open>baseGet\<close> along the cast path otherwise.
\<close>

definition property :: "js_env \<Rightarrow> string \<Rightarrow> obj \<Rightarrow> jsval" where
  "property env path object =
     (if isKey env path then js_get env object path
      else baseGet env object (castPath env path object))"

text \<open>
  lodash \<open>baseUnset(object, path)\<close> on the copy that \<open>omit\<close> makes: it deletes the
  last key of the path from the parent that the keys before it lead to. The copy has
  the own properties of the item and, for a path of several keys, is a deep clone, so
  the parent belongs to the copy when every key before the last names an own property
  holding an object. When the way leads through an inherited property, a missing
  property or a primitive value, nothing is deleted from the copy (\<open>delete\<close> on a
  string's own property answers false). For the empty path lodash deletes the key
  \<open>'undefined'\<close>. The clone keeps the reference numbers of the objects it copies: what
  is recorded of a created row is the content of its attributes.
\<close>

definition delete_key :: "obj \<Rightarrow> string \<Rightarrow> obj" where
  "delete_key object key = filter (\<lambda>kv. fst kv \<noteq> key) object"

definition set_key :: "obj \<Rightarrow> string \<Rightarrow> jsval \<Rightarrow> obj" where
  "set_key object key v = map (\<lambda>kv. if fst kv = key then (key, v) else kv) object"

fun baseUnset :: "obj \<Rightarrow> string list \<Rightarrow> obj" where
  "baseUnset object [] = delete_key object ''undefined''"
| "baseUnset object [key] = delete_key object key"
| "baseUnset object (key # next # path) =
     (case map_of object key of
        Some (JObj r props) \<Rightarrow> set_key object key (JObj r (baseUnset props (next # path)))
      | _ \<Rightarrow> object)"

text \<open>
  lodash \<open>omit(object, path)\<close> for one path, and \<open>pick(object, key)\<close> for a plain name
  such as \<open>'attributeType'\<close>: the object with that property alone, when the object has
  it (own or inherited), the empty object otherwise.
\<close>

definition omit :: "js_env \<Rightarrow> obj \<Rightarrow> string \<Rightarrow> obj" where
  "omit env object path = baseUnset object (castPath env path object)"

definition pick :: "js_env \<Rightarrow> obj \<Rightarrow> string \<Rightarrow> obj" where
  "pick env object key = (if js_in env object key then [(key, js_get env object key)] else [])"

subsection \<open>The persistence layer\<close>

text \<open>
  The object-relational mapper is an external library. It is represented by the log of
  the calls the module makes to it, in the order they are issued, and by the two
  sequences that generate the ids of new Set rows and new item rows. Every call
  succeeds; failures of the storage layer are outside this development. Every call
  carries the transaction handle \<open>transacting\<close> it was given.
\<close>

datatype db_call =
    SaveSet nat string nat
  | FetchRelated nat nat string
  | AttachId nat nat string jsval
  | CreateItem nat nat string obj nat
  | SaveTextValue nat nat jsval

record orm =
  calls :: "db_call list"
  set_seq :: nat
  item_seq :: nat

text \<open>
  Modelled from the spec: the persistence layer's "insert linked-set row" operation,
  \<open>new SetModel().save(null, {transacting})\<close>. It inserts one Set row and returns its
  generated id.
\<close>

definition model_save :: "orm \<Rightarrow> nat \<Rightarrow> string \<Rightarrow> nat \<times> orm" where
  "model_save db transacting SetModel =
     (set_seq db,
      db\<lparr>calls := calls db @ [SaveSet transacting SetModel (set_seq db)],
         set_seq := Suc (set_seq db)\<rparr>)"

text \<open>
  Modelled from the spec: the persistence layer's "fetch related collection" operation,
  \<open>newSet.related(itemsAttribute).fetch({transacting})\<close>, a read.
\<close>

definition related_fetch :: "orm \<Rightarrow> nat \<Rightarrow> nat \<Rightarrow> string \<Rightarrow> orm" where
  "related_fetch db transacting setId itemsAttribute =
     db\<lparr>calls := calls db @ [FetchRelated transacting setId itemsAttribute]\<rparr>"

text \<open>
  Modelled from the spec: the persistence layer's "attach by id" operation,
  \<open>collection.attach(ids, {transacting})\<close>. One attach is performed for each id of the
  array, in order; an empty array attaches nothing.
\<close>

definition collection_attach :: "orm \<Rightarrow> nat \<Rightarrow> nat \<Rightarrow> string \<Rightarrow> jsval list \<Rightarrow> orm" where
  "collection_attach db transacting setId itemsAttribute ids =
     db\<lparr>calls := calls db @ map (AttachId transacting setId itemsAttribute) ids\<rparr>"

text \<open>
  Modelled from the spec: the persistence layer's "create row" operation,
  \<open>collection.create(attributes, {transacting})\<close>. It inserts one item row holding the
  given attributes, linked to the set, and returns the id generated for the row.
\<close>

definition collection_create :: "orm \<Rightarrow> nat \<Rightarrow> nat \<Rightarrow> string \<Rightarrow> obj \<Rightarrow> nat \<times> orm" where
  "collection_create db transacting setId itemsAttribute attributes =
     (item_seq db,
      db\<lparr>calls := calls db @
              [CreateItem transacting setId itemsAttribute attributes (item_seq db)],
         item_seq := Suc (item_seq db)\<rparr>)"

text \<open>
  Modelled from the spec: the insertion of one \<open>RelationshipAttributeTextValue\<close> row,
  \<open>new RelationshipAttributeTextValue({attributeId, textValue}).save(null, {method:
  'insert', transacting})\<close>.
\<close>

definition text_value_save :: "orm \<Rightarrow> nat \<Rightarrow> nat \<Rightarrow> jsval \<Rightarrow> orm" where
  "text_value_save db transacting attributeId textValue =
     db\<lparr>calls := calls db @ [SaveTextValue transacting attributeId textValue]\<rparr>"

subsection \<open>The materializer\<close>

text \<open>
  A thrown exception is a value: \<open>Error\<close> with its message for the module's own
  \<open>throw Error(...)\<close> (the specification's \<open>InvalidArgument\<close>), \<open>TypeError\<close> for a
  property read on \<open>undefined\<close> or \<open>null\<close>. The result \<open>null\<close> is \<open>Inr None\<close>; the
  new Set is \<open>Inr (Some id)\<close> with its generated id.

  \<open>itemsAttribute\<close> is \<open>None\<close> when the argument is omitted; the test
  \<open>!itemsAttribute\<close> holds for the omitted argument and for the empty string.
  \<open>idAttribute\<close> is \<open>None\<close> when omitted and then defaults to \<open>'id'\<close>.
\<close>

datatype js_error = Error string | TypeError

definition default_id :: "string option \<Rightarrow> string" where
  "default_id idAttribute = (case idAttribute of None \<Rightarrow> ''id'' | Some a \<Rightarrow> a)"

text \<open>
  The calls \<open>create(_.omit(ident, idAttribute))\<close> made by mapping over \<open>addedItems\<close>,
  in the order of the array.
\<close>

fun create_added ::
  "js_env \<Rightarrow> orm \<Rightarrow> nat \<Rightarrow> nat \<Rightarrow> string \<Rightarrow> string \<Rightarrow> obj list \<Rightarrow> orm" where
  "create_added env db transacting setId itemsAttribute idAttr [] = db"
| "create_added env db transacting setId itemsAttribute idAttr (ident # addedItems) =
     create_added env
       (snd (collection_create db transacting setId itemsAttribute (omit env ident idAttr)))
       transacting setId itemsAttribute idAttr addedItems"

definition createNewSetWithItems ::
  "js_env \<Rightarrow> orm \<Rightarrow> nat \<Rightarrow> string \<Rightarrow> obj list \<Rightarrow> obj list \<Rightarrow> string option
     \<Rightarrow> string option \<Rightarrow> (js_error + nat option) \<times> orm" where
  "createNewSetWithItems env db transacting SetModel unchangedItems addedItems
       itemsAttribute idAttribute =
     (case itemsAttribute of
        None \<Rightarrow> (Inl (Error ''itemsAttribute must be set in createNewSetWithItems''), db)
      | Some rel \<Rightarrow>
          if rel = [] then
            (Inl (Error ''itemsAttribute must be set in createNewSetWithItems''), db)
          else if unchangedItems = [] \<and> addedItems = [] then (Inr None, db)
          else
            (let (newSet, db1) = model_save db transacting SetModel;
                 db2 = related_fetch db1 transacting newSet rel;
                 db3 = collection_attach db2 transacting newSet rel
                         (map (property env (default_id idAttribute)) unchangedItems);
                 db4 = create_added env db3 transacting newSet rel (default_id idAttribute)
                         addedItems
             in (Inr (Some newSet), db4)))"

text \<open>
  The relationship-attribute variant maps an \<open>async\<close> callback over \<open>addedItems\<close>.
  Each callback runs up to its first \<open>await\<close> when it is called, so the calls
  \<open>create(_.pick(ident, 'attributeType'))\<close> are issued for all items in the order of
  the array (\<open>create_attributes\<close>, which returns the generated ids). Each callback
  resumes later, when its own \<open>create\<close> has resolved, reads \<open>value.textValue\<close> and
  saves the text value. The order in which the callbacks resume is not fixed by the
  module: it is the parameter \<open>schedule\<close>, the indices of the callbacks in the order of
  their resumption (\<open>resume_order\<close>). A callback whose \<open>value\<close> is \<open>undefined\<close> or
  \<open>null\<close> throws a \<open>TypeError\<close> there and saves nothing; the other callbacks still
  run, and the operation as a whole fails. The final state is the one reached when all
  callbacks have settled.
\<close>

fun create_attributes ::
  "js_env \<Rightarrow> orm \<Rightarrow> nat \<Rightarrow> nat \<Rightarrow> string \<Rightarrow> obj list \<Rightarrow> nat list \<times> orm" where
  "create_attributes env db transacting setId itemsAttribute [] = ([], db)"
| "create_attributes env db transacting setId itemsAttribute (ident # addedItems) =
     (let (modelId, db1) = collection_create db transacting setId itemsAttribute
                             (pick env ident ''attributeType'');
          (ids, db2) = create_attributes env db1 transacting setId itemsAttribute addedItems
      in (modelId # ids, db2))"

definition resume_order :: "'a list \<Rightarrow> nat list \<Rightarrow> 'a list" where
  "resume_order callbacks schedule = concat (map (\<lambda>i. take 1 (drop i callbacks)) schedule)"

text \<open>The read \<open>value.textValue\<close>, which throws when \<open>value\<close> is \<open>undefined\<close> or \<open>null\<close>.\<close>

definition has_value :: "js_env \<Rightarrow> obj \<Rightarrow> bool" where
  "has_value env ident =
     (js_get env ident ''value'' \<noteq> JUndefined \<and> js_get env ident ''value'' \<noteq> JNull)"

definition text_value_of :: "js_env \<Rightarrow> obj \<Rightarrow> js_error + jsval" where
  "text_value_of env ident =
     (if has_value env ident then Inr (get_prop env (js_get env ident ''value'') ''textValue'')
      else Inl TypeError)"

fun save_values ::
  "js_env \<Rightarrow> orm \<Rightarrow> nat \<Rightarrow> (obj \<times> nat) list \<Rightarrow> js_error option \<times> orm" where
  "save_values env db transacting [] = (None, db)"
| "save_values env db transacting ((ident, modelId) # rest) =
     (case text_value_of env ident of
        Inl e \<Rightarrow> (Some e, snd (save_values env db transacting rest))
      | Inr textValue \<Rightarrow>
          save_values env (text_value_save db transacting modelId textValue) transacting rest)"

definition createNewRelationshipAttributeSetWithItems ::
  "js_env \<Rightarrow> nat list \<Rightarrow> orm \<Rightarrow> nat \<Rightarrow> string \<Rightarrow> obj list \<Rightarrow> obj list \<Rightarrow> string option
     \<Rightarrow> string option \<Rightarrow> (js_error + nat option) \<times> orm" where
  "createNewRelationshipAttributeSetWithItems env schedule db transacting SetModel
       unchangedItems addedItems itemsAttribute idAttribute =
     (case itemsAttribute of
        None \<Rightarrow>
          (Inl (Error
             ''itemsAttribute must be set in createNewRelationshipAttributeSetWithItems''),
           db)
      | Some rel \<Rightarrow>
          if rel = [] then
            (Inl (Error
               ''itemsAttribute must be set in createNewRelationshipAttributeSetWithItems''),
             db)
          else if unchangedItems = [] \<and> addedItems = [] then (Inr None, db)
          else
            (let (newSet, db1) = model_save db transacting SetModel;
                 db2 = related_fetch db1 transacting newSet rel;
                 db3 = collection_attach db2 transacting newSet rel
                         (map (property env (default_id idAttribute)) unchangedItems);
                 (ids, db4) = create_attributes env db3 transacting newSet rel addedItems;
                 (failed, db5) = save_values env db4 transacting
                                   (resume_order (zip addedItems ids) schedule)
             in (case failed of
                   Some e \<Rightarrow> (Inl e, db5)
                 | None \<Rightarrow> (Inr (Some newSet), db5))))"

subsection \<open>Reading the log\<close>

text \<open>
  The calls an operation added to the log, and the rows and attachments among them:
  the ids of the inserted Set rows, the ids attached, the item rows created (attributes
  and generated id) and the text-value rows inserted (\<open>attributeId\<close> and \<open>textValue\<close>).
\<close>

definition new_calls :: "orm \<Rightarrow> orm \<Rightarrow> db_call list" where
  "new_calls db db' = drop (length (calls db)) (calls db')"






subsection \<open>An environment for the examples\<close>

text \<open>
  The examples below read no more of their surroundings than this: \<open>Object.prototype\<close>
  with the twelve properties of a standard realm, each built-in given by its identity
  only; of the properties of primitive values, the length of a string; and, for the
  paths, what lodash does on names without brackets: a name is a path when it has a
  dot, and the path is the name split at its dots.
\<close>

fun split_dots :: "string \<Rightarrow> string list" where
  "split_dots [] = [[]]"
| "split_dots (c # cs) =
     (if c = CHR ''.'' then [] # split_dots cs
      else (case split_dots cs of [] \<Rightarrow> [[c]] | w # ws \<Rightarrow> (c # w) # ws))"

definition example_path :: "string \<Rightarrow> string list" where
  "example_path s = (if s = [] then [] else split_dots s)"

fun string_get :: "jsval \<Rightarrow> string \<Rightarrow> jsval" where
  "string_get (JStr s) key = (if key = ''length'' then JNum (int (length s)) else JUndefined)"
| "string_get v key = JUndefined"

definition example_env :: js_env where
  "example_env =
     \<lparr>object_prototype =
        [(''constructor'', JObj 1 []), (''__defineGetter__'', JObj 2 []),
         (''__defineSetter__'', JObj 3 []), (''hasOwnProperty'', JObj 4 []),
         (''__lookupGetter__'', JObj 5 []), (''__lookupSetter__'', JObj 6 []),
         (''isPrototypeOf'', JObj 7 []), (''propertyIsEnumerable'', JObj 8 []),
         (''toString'', JObj 9 []), (''valueOf'', JObj 10 []),
         (''__proto__'', JObj 11 []), (''toLocaleString'', JObj 12 [])],
      primitive_get = string_get,
      reIsDeepProp = (\<lambda>s. CHR ''.'' \<in> set s),
      stringToPath = example_path\<rparr>"

section \<open>Properties of the differ\<close>

subsection \<open>Membership in the results of the loops\<close>

lemma arrayIncludesWith_iff:
  "arrayIncludesWith array v comparator \<longleftrightarrow> (\<exists>x \<in> set array. comparator v x)"
  by (induction array) auto

lemma set_baseUniq_subset:
  "set (baseUniq array comparator result) \<subseteq> set array \<union> set result"
proof (induction array arbitrary: result)
  case Nil
  show ?case by simp
next
  case (Cons v array)
  have "set (baseUniq array comparator (result @ [v])) \<subseteq> set array \<union> set (result @ [v])"
    by (rule Cons.IH)
  moreover have "set (baseUniq array comparator result) \<subseteq> set array \<union> set result"
    by (rule Cons.IH)
  ultimately show ?case by auto
qed

lemma set_uniqWith_subset: "set (uniqWith array comparator) \<subseteq> set array"
  using set_baseUniq_subset [of array comparator "[]"] by (auto simp: uniqWith_def)

lemma set_baseIntersection_subset:
  "set (baseIntersection array other comparator m result) \<subseteq> set array \<union> set result"
proof (induction array arbitrary: result)
  case Nil
  show ?case by simp
next
  case (Cons v array)
  have "set (baseIntersection array other comparator m (result @ [v]))
          \<subseteq> set array \<union> set (result @ [v])"
    by (rule Cons.IH)
  moreover have "set (baseIntersection array other comparator m result)
          \<subseteq> set array \<union> set result"
    by (rule Cons.IH)
  ultimately show ?case by auto
qed

lemma set_intersectionWith_subset: "set (intersectionWith array other comparator) \<subseteq> set array"
  using set_baseIntersection_subset [of array other comparator _ "[]"]
  by (simp add: intersectionWith_def)

text \<open>
  Claim C7. For all finite sequences O and N and every comparator, the removed items of
  (O, N) are the added items of (N, O): both are the deduplicated difference of O by N.
\<close>

theorem removed_is_added_swapped:
  "getRemovedItems oldSet newSet cmp = getAddedItems newSet oldSet cmp"
  by (simp add: getRemovedItems_def getAddedItems_def)

text \<open>
  Claim C9. For all finite sequences O and N and every comparator, every element of the
  unchanged items is an element of the old collection O, so the representatives are the
  old stored rows.
\<close>

theorem unchanged_items_from_old:
  "set (getUnchangedItems oldSet newSet cmp) \<subseteq> set oldSet"
proof -
  have "set (getUnchangedItems oldSet newSet cmp) \<subseteq> set (intersectionWith oldSet newSet cmp)"
    unfolding getUnchangedItems_def by (rule set_uniqWith_subset)
  also have "\<dots> \<subseteq> set oldSet"
    by (rule set_intersectionWith_subset)
  finally show ?thesis .
qed

subsection \<open>lodash's deduplication is the specification's\<close>

lemma baseUniq_dedup:
  "baseUniq xs cmp r = r @ dedup cmp (filter (\<lambda>y. \<not> arrayIncludesWith r y cmp) xs)"
proof (induction xs arbitrary: r)
  case Nil
  show ?case by simp
next
  case (Cons v vs)
  show ?case
  proof (cases "arrayIncludesWith r v cmp")
    case True
    then show ?thesis using Cons.IH [of r] by simp
  next
    case False
    have eq: "filter (\<lambda>y. \<not> arrayIncludesWith (r @ [v]) y cmp) vs
            = filter (\<lambda>y. \<not> cmp y v) (filter (\<lambda>y. \<not> arrayIncludesWith r y cmp) vs)"
      by (simp add: arrayIncludesWith_iff conj_commute)
    show ?thesis using False Cons.IH [of "r @ [v]"] by (simp add: eq)
  qed
qed

lemma uniqWith_dedup: "uniqWith xs cmp = dedup cmp xs"
  by (simp add: uniqWith_def baseUniq_dedup)

lemma baseDifference_filter:
  "baseDifference xs vals cmp r = r @ filter (\<lambda>v. \<not> arrayIncludesWith vals v cmp) xs"
  by (induction xs arbitrary: r) simp_all

lemma differenceWith_filter:
  "differenceWith xs vals cmp = filter (\<lambda>v. \<not> (\<exists>x \<in> set vals. cmp v x)) xs"
  by (simp add: differenceWith_def baseDifference_filter arrayIncludesWith_iff)

lemma set_dedup_subset: "set (dedup cmp xs) \<subseteq> set xs"
  by (induction cmp xs rule: dedup.induct) auto

lemma dedup_separated: "sorted_wrt (\<lambda>x y. \<not> cmp y x) (dedup cmp xs)"
proof (induction cmp xs rule: dedup.induct)
  case (1 cmp)
  show ?case by simp
next
  case (2 cmp x xs)
  have "set (dedup cmp (filter (\<lambda>y. \<not> cmp y x) xs)) \<subseteq> set (filter (\<lambda>y. \<not> cmp y x) xs)"
    by (rule set_dedup_subset)
  then have "\<forall>y \<in> set (dedup cmp (filter (\<lambda>y. \<not> cmp y x) xs)). \<not> cmp y x"
    by auto
  moreover have "sorted_wrt (\<lambda>x y. \<not> cmp y x) (dedup cmp (filter (\<lambda>y. \<not> cmp y x) xs))"
    by (rule 2)
  ultimately show ?case
    unfolding dedup.simps sorted_wrt.simps by blast
qed

lemma dedup_fixed:
  "sorted_wrt (\<lambda>x y. \<not> cmp y x) xs \<Longrightarrow> dedup cmp xs = xs"
proof (induction xs)
  case Nil
  show ?case by simp
next
  case (Cons x xs)
  then have "filter (\<lambda>y. \<not> cmp y x) xs = xs" by simp
  with Cons show ?case by simp
qed

lemma dedup_idem: "dedup cmp (dedup cmp xs) = dedup cmp xs"
  by (rule dedup_fixed) (rule dedup_separated)

lemma dedup_cover:
  "\<forall>x \<in> set xs. cmp x x \<Longrightarrow> x \<in> set xs \<Longrightarrow> \<exists>u \<in> set (dedup cmp xs). cmp x u"
proof (induction cmp xs arbitrary: x rule: dedup.induct)
  case (1 cmp)
  then show ?case by simp
next
  case (2 cmp y ys)
  show ?case
  proof (cases "cmp x y")
    case True
    then show ?thesis by simp
  next
    case False
    with "2.prems" have "x \<in> set (filter (\<lambda>z. \<not> cmp z y) ys)" by auto
    moreover have "\<forall>x \<in> set (filter (\<lambda>z. \<not> cmp z y) ys). cmp x x"
      using "2.prems" by auto
    ultimately have "\<exists>u \<in> set (dedup cmp (filter (\<lambda>z. \<not> cmp z y) ys)). cmp x u"
      using "2.IH" by blast
    then show ?thesis by auto
  qed
qed


lemma baseUniq_Nil_dedup: "baseUniq xs cmp [] = dedup cmp xs"
  by (simp add: baseUniq_dedup)

lemma baseUniq_all_included:
  "\<forall>x \<in> set xs. arrayIncludesWith r x cmp \<Longrightarrow> baseUniq xs cmp r = r"
  by (induction xs) simp_all

lemma baseIntersection_no_cut:
  "\<forall>x \<in> set array. arrayIncludesWith other x cmp \<Longrightarrow> length r + length array \<le> m \<Longrightarrow>
   baseIntersection array other cmp m r = baseUniq array cmp r"
proof (induction array arbitrary: r)
  case Nil
  show ?case by simp
next
  case (Cons v array)
  from Cons.prems have lt: "length r < m" by simp
  from Cons.prems have inc: "arrayIncludesWith other v cmp" by simp
  from Cons.prems have rest: "\<forall>x \<in> set array. arrayIncludesWith other x cmp" by simp
  show ?case
  proof (cases "arrayIncludesWith r v cmp")
    case True
    have "baseIntersection array other cmp m r = baseUniq array cmp r"
      using rest Cons.prems(2) by (intro Cons.IH) simp_all
    with True lt show ?thesis by simp
  next
    case False
    have "baseIntersection array other cmp m (r @ [v]) = baseUniq array cmp (r @ [v])"
      using rest Cons.prems(2) by (intro Cons.IH) simp_all
    with False lt inc show ?thesis by simp
  qed
qed

lemma intersectionWith_self:
  assumes "reflp_on (set xs) cmp"
  shows "intersectionWith xs xs cmp = dedup cmp xs"
proof -
  have "\<forall>x \<in> set xs. arrayIncludesWith xs x cmp"
    using assms by (auto simp: arrayIncludesWith_iff dest: reflp_onD)
  then have "baseIntersection xs xs cmp (length xs) [] = baseUniq xs cmp []"
    by (rule baseIntersection_no_cut) simp
  then show ?thesis by (simp add: intersectionWith_def baseUniq_Nil_dedup)
qed

lemma differenceWith_self:
  assumes "reflp_on (set xs) cmp"
  shows "differenceWith xs xs cmp = []"
  using assms by (auto simp: differenceWith_filter filter_empty_conv dest: reflp_onD)

text \<open>
  Claim C8, as it holds. For every finite sequence O and every comparator that is
  reflexive on the items of O, comparing O against itself yields O deduplicated under the
  comparator as unchanged items, no added item and no removed item.
\<close>

theorem self_comparison:
  assumes "reflp_on (set oldSet) cmp"
  shows "getUnchangedItems oldSet oldSet cmp = dedup cmp oldSet
       \<and> getAddedItems oldSet oldSet cmp = []
       \<and> getRemovedItems oldSet oldSet cmp = []"
  using assms
  by (simp add: getUnchangedItems_def getAddedItems_def getRemovedItems_def
      intersectionWith_self differenceWith_self uniqWith_dedup dedup_idem)

text \<open>Three aliases compared on \<open>name\<close>, two of them with the same name.\<close>

theorem self_comparison_witness:
  "reflp_on (set [[(''id'', JNum 1), (''name'', JStr ''a'')],
                  [(''id'', JNum 2), (''name'', JStr ''a'')],
                  [(''id'', JNum 3), (''name'', JStr ''b'')]])
            (getComparisonFunc example_env [''name''])
   \<and> getUnchangedItems
         [[(''id'', JNum 1), (''name'', JStr ''a'')],
          [(''id'', JNum 2), (''name'', JStr ''a'')],
          [(''id'', JNum 3), (''name'', JStr ''b'')]]
         [[(''id'', JNum 1), (''name'', JStr ''a'')],
          [(''id'', JNum 2), (''name'', JStr ''a'')],
          [(''id'', JNum 3), (''name'', JStr ''b'')]]
         (getComparisonFunc example_env [''name''])
       = [[(''id'', JNum 1), (''name'', JStr ''a'')], [(''id'', JNum 3), (''name'', JStr ''b'')]]
   \<and> getAddedItems
         [[(''id'', JNum 1), (''name'', JStr ''a'')],
          [(''id'', JNum 2), (''name'', JStr ''a'')],
          [(''id'', JNum 3), (''name'', JStr ''b'')]]
         [[(''id'', JNum 1), (''name'', JStr ''a'')],
          [(''id'', JNum 2), (''name'', JStr ''a'')],
          [(''id'', JNum 3), (''name'', JStr ''b'')]]
         (getComparisonFunc example_env [''name'']) = []"
proof -
  let ?O = "[[(''id'', JNum 1), (''name'', JStr ''a'')],
             [(''id'', JNum 2), (''name'', JStr ''a'')],
             [(''id'', JNum 3), (''name'', JStr ''b'')]]"
  let ?c = "getComparisonFunc example_env [''name'']"
  have h: "reflp_on (set ?O) ?c"
    by (simp add: reflp_on_def getComparisonFunc_def js_get_def example_env_def)
  have d: "dedup ?c ?O = [[(''id'', JNum 1), (''name'', JStr ''a'')], [(''id'', JNum 3), (''name'', JStr ''b'')]]"
    by (simp add: getComparisonFunc_def js_get_def example_env_def)
  show ?thesis using h d self_comparison [OF h] by simp
qed

text \<open>
  Without reflexivity the statement fails: an item whose compared field is \<open>NaN\<close> is
  not equal to itself under the comparator built by \<open>getComparisonFunc\<close>, so it is
  reported as added when a collection is compared against itself.
\<close>

theorem self_comparison_counterexample:
  "getAddedItems [[(''x'', JNaN)]] [[(''x'', JNaN)]] (getComparisonFunc example_env [''x''])
     = [[(''x'', JNaN)]]"
  by (simp add: getAddedItems_def differenceWith_def uniqWith_def getComparisonFunc_def
      js_get_def)

subsection \<open>The partition of the new collection\<close>

lemma separated_pairwise:
  assumes sym: "symp_on S cmp" and rS: "set r \<subseteq> S"
    and sep: "sorted_wrt (\<lambda>x y. \<not> cmp y x) r"
    and i: "i < length r" and j: "j < length r" and ij: "i \<noteq> j"
  shows "\<not> cmp (r ! i) (r ! j)"
proof
  assume c: "cmp (r ! i) (r ! j)"
  have mem: "r ! i \<in> S" "r ! j \<in> S" using rS i j by (auto simp: subset_iff)
  from c mem sym have c': "cmp (r ! j) (r ! i)" by (auto dest: symp_onD)
  show False
  proof (cases "i < j")
    case True
    with sep j have "\<not> cmp (r ! j) (r ! i)" by (simp add: sorted_wrt_iff_nth_less)
    with c' show False by simp
  next
    case False
    with ij have "j < i" by simp
    with sep i have "\<not> cmp (r ! i) (r ! j)" by (simp add: sorted_wrt_iff_nth_less)
    with c show False by simp
  qed
qed

lemma representatives_cover:
  assumes sym: "symp_on S cmp" and trans: "transp_on S cmp"
    and rS: "set r \<subseteq> S" and nS: "set other \<subseteq> S"
    and sep: "sorted_wrt (\<lambda>x y. \<not> cmp y x) r"
    and match: "\<forall>x \<in> set r. \<exists>n \<in> set other. cmp x n"
    and len: "length other \<le> length r"
    and n: "n \<in> set other"
  shows "\<exists>x \<in> set r. cmp n x"
proof -
  define f where "f i = (SOME n. n \<in> set other \<and> cmp (r ! i) n)" for i
  have f: "f i \<in> set other \<and> cmp (r ! i) (f i)" if "i < length r" for i
  proof -
    from that match have "\<exists>n. n \<in> set other \<and> cmp (r ! i) n" by (auto simp: Bex_def)
    then show ?thesis unfolding f_def by (rule someI_ex)
  qed
  have inj: "inj_on f {..<length r}"
  proof (rule inj_onI)
    fix i j assume i: "i \<in> {..<length r}" and j: "j \<in> {..<length r}" and eq: "f i = f j"
    show "i = j"
    proof (rule ccontr)
      assume ne: "i \<noteq> j"
      have ri: "r ! i \<in> S" and rj: "r ! j \<in> S" using rS i j by (auto simp: subset_iff)
      have fi: "f i \<in> S" using f [of i] i nS by auto
      have c1: "cmp (r ! i) (f i)" using f [of i] i by simp
      have c2: "cmp (r ! j) (f i)" using f [of j] j eq by simp
      from c2 sym rj fi have "cmp (f i) (r ! j)" by (auto dest: symp_onD)
      with c1 trans ri fi rj have "cmp (r ! i) (r ! j)" by (blast dest: transp_onD)
      moreover have "\<not> cmp (r ! i) (r ! j)"
      proof (rule separated_pairwise [OF sym rS sep])
        show "i < length r" using i by simp
        show "j < length r" using j by simp
        show "i \<noteq> j" by (rule ne)
      qed
      ultimately show False by simp
    qed
  qed
  have sub: "f ` {..<length r} \<subseteq> set other" using f by auto
  have "card (set other) \<le> length other" by (rule card_length)
  also have "\<dots> \<le> length r" by (rule len)
  also have "\<dots> = card (f ` {..<length r})" using inj by (simp add: card_image)
  finally have "f ` {..<length r} = set other"
    using sub by (intro card_seteq) simp_all
  with n obtain i where i: "i < length r" and ni: "n = f i" by auto
  have "cmp (r ! i) n" using f [of i] i ni by simp
  moreover have "r ! i \<in> S" "n \<in> S" using rS nS i n by (auto simp: subset_iff)
  ultimately have "cmp n (r ! i)" using sym by (auto dest: symp_onD)
  with i show ?thesis by auto
qed


lemma baseIntersection_filter:
  assumes sym: "symp_on S cmp" and trans: "transp_on S cmp"
    and oS: "set other \<subseteq> S"
  shows "set array \<subseteq> S \<Longrightarrow> set r \<subseteq> S \<Longrightarrow> sorted_wrt (\<lambda>x y. \<not> cmp y x) r \<Longrightarrow>
     \<forall>x \<in> set r. \<exists>n \<in> set other. cmp x n \<Longrightarrow> length r + length array \<le> L \<Longrightarrow>
     baseIntersection array other cmp (min L (length other)) r
       = baseUniq (filter (\<lambda>v. arrayIncludesWith other v cmp) array) cmp r"
proof (induction array arbitrary: r)
  case Nil
  show ?case by simp
next
  case (Cons v array)
  from Cons.prems have aS: "set array \<subseteq> S" and vS: "v \<in> S" by simp_all
  show ?case
  proof (cases "length r < min L (length other)")
    case lt: True
    show ?thesis
    proof (cases "arrayIncludesWith other v cmp")
      case inc: True
      show ?thesis
      proof (cases "arrayIncludesWith r v cmp")
        case True
        have "baseIntersection array other cmp (min L (length other)) r
            = baseUniq (filter (\<lambda>v. arrayIncludesWith other v cmp) array) cmp r"
          using aS Cons.prems by (intro Cons.IH) simp_all
        with True inc lt show ?thesis by simp
      next
        case False
        have sep': "sorted_wrt (\<lambda>x y. \<not> cmp y x) (r @ [v])"
          using False Cons.prems(3) by (simp add: sorted_wrt_append arrayIncludesWith_iff)
        have match': "\<forall>x \<in> set (r @ [v]). \<exists>n \<in> set other. cmp x n"
          using inc Cons.prems(4) by (simp add: arrayIncludesWith_iff)
        have "baseIntersection array other cmp (min L (length other)) (r @ [v])
            = baseUniq (filter (\<lambda>v. arrayIncludesWith other v cmp) array) cmp (r @ [v])"
          using aS vS Cons.prems(2,5) sep' match' by (intro Cons.IH) simp_all
        with False inc lt show ?thesis by simp
      qed
    next
      case False
      have "baseIntersection array other cmp (min L (length other)) r
          = baseUniq (filter (\<lambda>v. arrayIncludesWith other v cmp) array) cmp r"
        using aS Cons.prems by (intro Cons.IH) simp_all
      with False lt show ?thesis by simp
    qed
  next
    case False
    with Cons.prems(5) have len: "length other \<le> length r" by simp
    have "\<forall>y \<in> set (filter (\<lambda>v. arrayIncludesWith other v cmp) (v # array)).
            arrayIncludesWith r y cmp"
    proof
      fix y assume "y \<in> set (filter (\<lambda>v. arrayIncludesWith other v cmp) (v # array))"
      then have "y \<in> set (v # array) \<and> arrayIncludesWith other y cmp"
        unfolding set_filter by blast
      then have yS: "y \<in> S" and "arrayIncludesWith other y cmp"
        using Cons.prems(1) by blast+
      then obtain n where n: "n \<in> set other" and yn: "cmp y n"
        by (auto simp: arrayIncludesWith_iff)
      from representatives_cover [OF sym trans Cons.prems(2) oS Cons.prems(3) Cons.prems(4) len n]
      obtain x where x: "x \<in> set r" and nx: "cmp n x" by auto
      have "n \<in> S" "x \<in> S" using n x oS Cons.prems(2) by auto
      with yS yn nx trans have "cmp y x" by (blast dest: transp_onD)
      with x show "arrayIncludesWith r y cmp" by (auto simp: arrayIncludesWith_iff)
    qed
    then have "baseUniq (filter (\<lambda>v. arrayIncludesWith other v cmp) (v # array)) cmp r = r"
      by (rule baseUniq_all_included)
    moreover have "baseIntersection (v # array) other cmp (min L (length other)) r = r"
      using False by (simp only: baseIntersection.simps if_False)
    ultimately show ?thesis by simp
  qed
qed

lemma intersectionWith_filter:
  assumes sym: "symp_on S cmp" and trans: "transp_on S cmp"
    and aS: "set array \<subseteq> S" and oS: "set other \<subseteq> S"
  shows "intersectionWith array other cmp
       = dedup cmp (filter (\<lambda>v. \<exists>n \<in> set other. cmp v n) array)"
proof -
  have "baseIntersection array other cmp (min (length array) (length other)) []
      = baseUniq (filter (\<lambda>v. arrayIncludesWith other v cmp) array) cmp []"
    using aS by (intro baseIntersection_filter [OF sym trans oS]) simp_all
  then show ?thesis
    by (simp add: intersectionWith_def baseUniq_Nil_dedup arrayIncludesWith_iff)
qed

lemma matches_none:
  "\<forall>x \<in> set xs. \<not> cmp n x \<Longrightarrow> filter (cmp n) xs = []"
  by (simp add: filter_empty_conv)

lemma matches_one:
  assumes sym: "symp_on S cmp" and trans: "transp_on S cmp" and nS: "n \<in> S"
  shows "set xs \<subseteq> S \<Longrightarrow> sorted_wrt (\<lambda>x y. \<not> cmp y x) xs \<Longrightarrow> \<exists>x \<in> set xs. cmp n x \<Longrightarrow>
         length (filter (cmp n) xs) = 1"
proof (induction xs)
  case Nil
  then show ?case by simp
next
  case (Cons x xs)
  from Cons.prems have xS: "x \<in> S" and xsS: "set xs \<subseteq> S" by simp_all
  show ?case
  proof (cases "cmp n x")
    case True
    have "\<forall>y \<in> set xs. \<not> cmp n y"
    proof
      fix y assume y: "y \<in> set xs"
      show "\<not> cmp n y"
      proof
        assume "cmp n y"
        moreover have yS: "y \<in> S" using y xsS by auto
        ultimately have "cmp y n" using sym nS by (auto dest: symp_onD)
        with True trans yS nS xS have "cmp y x" by (blast dest: transp_onD)
        with y Cons.prems(2) show False by simp
      qed
    qed
    then have "filter (cmp n) xs = []" by (rule matches_none)
    with True show ?thesis by simp
  next
    case False
    with Cons.prems have "\<exists>x \<in> set xs. cmp n x" by simp
    with xsS Cons.prems(2) have "length (filter (cmp n) xs) = 1"
      by (intro Cons.IH) simp_all
    with False show ?thesis by simp
  qed
qed


lemma getUnchangedItems_dedup:
  assumes "symp_on S cmp" and "transp_on S cmp" and "set oldSet \<subseteq> S" and "set newSet \<subseteq> S"
  shows "getUnchangedItems oldSet newSet cmp
       = dedup cmp (filter (\<lambda>v. \<exists>n \<in> set newSet. cmp v n) oldSet)"
  by (simp add: getUnchangedItems_def intersectionWith_filter [OF assms] uniqWith_dedup dedup_idem)

lemma getAddedItems_dedup:
  "getAddedItems oldSet newSet cmp
     = dedup cmp (filter (\<lambda>v. \<not> (\<exists>x \<in> set oldSet. cmp v x)) newSet)"
  by (simp add: getAddedItems_def differenceWith_filter uniqWith_dedup)

text \<open>
  Claim C1, as it holds. For all finite sequences O and N and every comparator that is
  an equivalence (reflexive, symmetric and transitive) on the items of O and N, the
  unchanged and the added items are disjoint under the comparator, and every item of N
  is equivalent to exactly one item of the unchanged items followed by the added items.
\<close>

theorem new_items_partition:
  assumes refl: "reflp_on (set oldSet \<union> set newSet) cmp"
    and sym: "symp_on (set oldSet \<union> set newSet) cmp"
    and trans: "transp_on (set oldSet \<union> set newSet) cmp"
  shows "(\<forall>u \<in> set (getUnchangedItems oldSet newSet cmp).
            \<forall>a \<in> set (getAddedItems oldSet newSet cmp). \<not> cmp u a \<and> \<not> cmp a u)
       \<and> (\<forall>n \<in> set newSet.
            length (filter (cmp n)
              (getUnchangedItems oldSet newSet cmp @ getAddedItems oldSet newSet cmp)) = 1)"
proof -
  define S where "S = set oldSet \<union> set newSet"
  define F where "F = filter (\<lambda>v. \<exists>n \<in> set newSet. cmp v n) oldSet"
  define D where "D = filter (\<lambda>v. \<not> (\<exists>x \<in> set oldSet. cmp v x)) newSet"
  define U where "U = getUnchangedItems oldSet newSet cmp"
  define A where "A = getAddedItems oldSet newSet cmp"
  have symS: "symp_on S cmp" and transS: "transp_on S cmp" and reflS: "reflp_on S cmp"
    using sym trans refl by (simp_all add: S_def)
  have oS: "set oldSet \<subseteq> S" and nS: "set newSet \<subseteq> S" by (auto simp: S_def)
  have U: "U = dedup cmp F"
    unfolding U_def F_def by (rule getUnchangedItems_dedup [OF symS transS oS nS])
  have A: "A = dedup cmp D"
    unfolding A_def D_def by (rule getAddedItems_dedup)
  have UF: "set U \<subseteq> set F" unfolding U by (rule set_dedup_subset)
  have AD: "set A \<subseteq> set D" unfolding A by (rule set_dedup_subset)
  have FS: "set F \<subseteq> set oldSet" by (auto simp: F_def)
  have DS: "set D \<subseteq> set newSet" by (auto simp: D_def)
  have US: "set U \<subseteq> S" using UF FS oS by blast
  have AS: "set A \<subseteq> S" using AD DS nS by blast
  have sepU: "sorted_wrt (\<lambda>x y. \<not> cmp y x) U" unfolding U by (rule dedup_separated)
  have sepA: "sorted_wrt (\<lambda>x y. \<not> cmp y x) A" unfolding A by (rule dedup_separated)
  have a_old: "\<not> cmp a x" if "a \<in> set A" "x \<in> set oldSet" for a x
  proof -
    from that(1) AD have "a \<in> set D" by blast
    with that(2) show ?thesis by (auto simp: D_def)
  qed
  have disj: "\<not> cmp u a \<and> \<not> cmp a u" if u: "u \<in> set U" and a: "a \<in> set A" for u a
  proof -
    from u UF FS have uo: "u \<in> set oldSet" by blast
    have 1: "\<not> cmp a u" using a uo by (rule a_old)
    have "u \<in> S" "a \<in> S" using u a US AS by blast+
    with 1 symS have "\<not> cmp u a" by (auto dest: symp_onD)
    with 1 show ?thesis by simp
  qed
  have one: "length (filter (cmp n) (U @ A)) = 1" if n: "n \<in> set newSet" for n
  proof (cases "\<exists>x \<in> set oldSet. cmp n x")
    case True
    then obtain x where x: "x \<in> set oldSet" and nx: "cmp n x" by blast
    have nSm: "n \<in> S" and xS: "x \<in> S" using n x nS oS by blast+
    from nx symS nSm xS have xn: "cmp x n" by (auto dest: symp_onD)
    with x n have xF: "x \<in> set F" by (auto simp: F_def)
    have "\<forall>y \<in> set F. cmp y y" using FS oS reflS by (auto dest: reflp_onD)
    from dedup_cover [of F cmp x, OF this xF] obtain u where u: "u \<in> set U" and xu: "cmp x u"
      unfolding U by blast
    have uS: "u \<in> S" using u US by blast
    from nx xu transS nSm xS uS have "cmp n u" by (blast dest: transp_onD)
    with u have "\<exists>u \<in> set U. cmp n u" by blast
    then have cU: "length (filter (cmp n) U) = 1"
      using US sepU by (intro matches_one [OF symS transS nSm]) simp_all
    have "\<forall>a \<in> set A. \<not> cmp n a"
    proof
      fix a assume a: "a \<in> set A"
      show "\<not> cmp n a"
      proof
        assume na: "cmp n a"
        have aS: "a \<in> S" using a AS by blast
        from na symS nSm aS have "cmp a n" by (auto dest: symp_onD)
        with nx transS aS nSm xS have "cmp a x" by (blast dest: transp_onD)
        with a_old [OF a x] show False by simp
      qed
    qed
    then have "filter (cmp n) A = []" by (rule matches_none)
    with cU show ?thesis by simp
  next
    case False
    with n have nD: "n \<in> set D" by (auto simp: D_def)
    have "\<forall>y \<in> set D. cmp y y" using DS nS reflS by (auto dest: reflp_onD)
    from dedup_cover [of D cmp n, OF this nD] have "\<exists>a \<in> set A. cmp n a" unfolding A by blast
    moreover have nSm: "n \<in> S" using n nS by blast
    ultimately have cA: "length (filter (cmp n) A) = 1"
      using AS sepA by (intro matches_one [OF symS transS nSm]) simp_all
    have "\<forall>u \<in> set U. \<not> cmp n u" using False UF FS by blast
    then have "filter (cmp n) U = []" by (rule matches_none)
    with cA show ?thesis by simp
  qed
  from disj one show ?thesis unfolding U_def A_def by blast
qed

text \<open>
  Two stored aliases against three submitted ones, compared on \<open>name\<close>: the alias
  named \<open>a\<close> is unchanged and keeps its stored row, the alias named \<open>c\<close> is added
  once.
\<close>

theorem new_items_partition_witness:
  "reflp_on (set [[(''id'', JNum 1), (''name'', JStr ''a'')], [(''id'', JNum 2), (''name'', JStr ''b'')]]
             \<union> set [[(''name'', JStr ''a'')], [(''name'', JStr ''c'')], [(''name'', JStr ''c'')]])
            (getComparisonFunc example_env [''name''])
   \<and> symp_on (set [[(''id'', JNum 1), (''name'', JStr ''a'')], [(''id'', JNum 2), (''name'', JStr ''b'')]]
             \<union> set [[(''name'', JStr ''a'')], [(''name'', JStr ''c'')], [(''name'', JStr ''c'')]])
            (getComparisonFunc example_env [''name''])
   \<and> transp_on (set [[(''id'', JNum 1), (''name'', JStr ''a'')], [(''id'', JNum 2), (''name'', JStr ''b'')]]
             \<union> set [[(''name'', JStr ''a'')], [(''name'', JStr ''c'')], [(''name'', JStr ''c'')]])
            (getComparisonFunc example_env [''name''])
   \<and> getUnchangedItems
         [[(''id'', JNum 1), (''name'', JStr ''a'')], [(''id'', JNum 2), (''name'', JStr ''b'')]]
         [[(''name'', JStr ''a'')], [(''name'', JStr ''c'')], [(''name'', JStr ''c'')]]
         (getComparisonFunc example_env [''name''])
       = [[(''id'', JNum 1), (''name'', JStr ''a'')]]
   \<and> getAddedItems
         [[(''id'', JNum 1), (''name'', JStr ''a'')], [(''id'', JNum 2), (''name'', JStr ''b'')]]
         [[(''name'', JStr ''a'')], [(''name'', JStr ''c'')], [(''name'', JStr ''c'')]]
         (getComparisonFunc example_env [''name''])
       = [[(''name'', JStr ''c'')]]
   \<and> length (filter (getComparisonFunc example_env [''name''] [(''name'', JStr ''a'')])
           (getUnchangedItems
              [[(''id'', JNum 1), (''name'', JStr ''a'')], [(''id'', JNum 2), (''name'', JStr ''b'')]]
              [[(''name'', JStr ''a'')], [(''name'', JStr ''c'')], [(''name'', JStr ''c'')]]
              (getComparisonFunc example_env [''name''])
            @ getAddedItems
              [[(''id'', JNum 1), (''name'', JStr ''a'')], [(''id'', JNum 2), (''name'', JStr ''b'')]]
              [[(''name'', JStr ''a'')], [(''name'', JStr ''c'')], [(''name'', JStr ''c'')]]
              (getComparisonFunc example_env [''name'']))) = 1
   \<and> length (filter (getComparisonFunc example_env [''name''] [(''name'', JStr ''c'')])
           (getUnchangedItems
              [[(''id'', JNum 1), (''name'', JStr ''a'')], [(''id'', JNum 2), (''name'', JStr ''b'')]]
              [[(''name'', JStr ''a'')], [(''name'', JStr ''c'')], [(''name'', JStr ''c'')]]
              (getComparisonFunc example_env [''name''])
            @ getAddedItems
              [[(''id'', JNum 1), (''name'', JStr ''a'')], [(''id'', JNum 2), (''name'', JStr ''b'')]]
              [[(''name'', JStr ''a'')], [(''name'', JStr ''c'')], [(''name'', JStr ''c'')]]
              (getComparisonFunc example_env [''name'']))) = 1"
proof -
  let ?O = "[[(''id'', JNum 1), (''name'', JStr ''a'')], [(''id'', JNum 2), (''name'', JStr ''b'')]]"
  let ?N = "[[(''name'', JStr ''a'')], [(''name'', JStr ''c'')], [(''name'', JStr ''c'')]]"
  let ?c = "getComparisonFunc example_env [''name'']"
  have r: "reflp_on (set ?O \<union> set ?N) ?c"
    by (simp add: reflp_on_def getComparisonFunc_def js_get_def example_env_def)
  have s: "symp_on (set ?O \<union> set ?N) ?c"
    by (simp add: symp_on_def getComparisonFunc_def js_get_def example_env_def)
  have t: "transp_on (set ?O \<union> set ?N) ?c"
    by (simp add: transp_on_def getComparisonFunc_def js_get_def example_env_def)
  have u: "getUnchangedItems ?O ?N ?c = [[(''id'', JNum 1), (''name'', JStr ''a'')]]"
    by (simp add: getUnchangedItems_def intersectionWith_def uniqWith_def
        getComparisonFunc_def js_get_def example_env_def)
  have a: "getAddedItems ?O ?N ?c = [[(''name'', JStr ''c'')]]"
    by (simp add: getAddedItems_def differenceWith_def uniqWith_def
        getComparisonFunc_def js_get_def example_env_def)
  have "\<forall>n \<in> set ?N.
      length (filter (?c n) (getUnchangedItems ?O ?N ?c @ getAddedItems ?O ?N ?c)) = 1"
    using new_items_partition [OF r s t] by (rule conjunct2)
  then have "length (filter (?c [(''name'', JStr ''a'')])
        (getUnchangedItems ?O ?N ?c @ getAddedItems ?O ?N ?c)) = 1"
    and "length (filter (?c [(''name'', JStr ''c'')])
        (getUnchangedItems ?O ?N ?c @ getAddedItems ?O ?N ?c)) = 1"
    by simp_all
  with r s t u a show ?thesis by blast
qed

text \<open>
  For a comparator that is not an equivalence the statement fails: with an empty old
  collection, a new item whose compared field is \<open>NaN\<close> is added, and it is
  equivalent to no item of the result, itself included.
\<close>

theorem new_items_partition_counterexample:
  "length (filter (getComparisonFunc example_env [''x''] [(''x'', JNaN)])
     (getUnchangedItems [] [[(''x'', JNaN)]] (getComparisonFunc example_env [''x''])
      @ getAddedItems [] [[(''x'', JNaN)]] (getComparisonFunc example_env [''x'']))) = 0"
  by (simp add: getUnchangedItems_def getAddedItems_def differenceWith_def intersectionWith_def
      uniqWith_def getComparisonFunc_def js_get_def example_env_def)

section \<open>Properties of the comparator\<close>

lemma Cmp_iff:
  "Cmp env compareFields a b \<longleftrightarrow>
     (\<forall>field \<in> set compareFields. strict_eq (js_get env a field) (js_get env b field))"
  by (induction compareFields) simp_all

lemma strict_eq_undefined_right: "strict_eq v JUndefined \<longleftrightarrow> v = JUndefined"
  by (cases v) simp_all

lemma strict_eq_undefined_left: "strict_eq JUndefined v \<longleftrightarrow> v = JUndefined"
  by (cases v) simp_all

lemma js_get_own: "map_of object field = Some v \<Longrightarrow> js_get env object field = v"
  by (simp add: js_get_def)

lemma js_get_absent: "\<not> js_in env object field \<Longrightarrow> js_get env object field = JUndefined"
  by (simp add: js_get_def js_in_def)

text \<open>
  Strict equality is symmetric and transitive, and reflexive away from \<open>NaN\<close>; hence a
  comparator built by \<open>getComparisonFunc\<close> is an equivalence on every collection of
  items whose compared fields are not \<open>NaN\<close>.
\<close>

lemma strict_eq_sym: "strict_eq a b \<Longrightarrow> strict_eq b a"
  by (cases a; cases b) simp_all

lemma strict_eq_trans: "strict_eq a b \<Longrightarrow> strict_eq b c \<Longrightarrow> strict_eq a c"
  by (cases a; cases b; cases c) simp_all

lemma strict_eq_refl: "a \<noteq> JNaN \<Longrightarrow> strict_eq a a"
  by (cases a) simp_all

lemma getComparisonFunc_symp_on: "symp_on S (getComparisonFunc env compareFields)"
  by (auto simp: symp_on_def getComparisonFunc_def Cmp_iff intro: strict_eq_sym)

lemma getComparisonFunc_transp_on: "transp_on S (getComparisonFunc env compareFields)"
  by (auto simp: transp_on_def getComparisonFunc_def Cmp_iff intro: strict_eq_trans)

lemma getComparisonFunc_reflp_on:
  "\<forall>item \<in> S. \<forall>field \<in> set compareFields. js_get env item field \<noteq> JNaN \<Longrightarrow>
   reflp_on S (getComparisonFunc env compareFields)"
  by (auto simp: reflp_on_def getComparisonFunc_def Cmp_iff intro: strict_eq_refl)

text \<open>
  Claim C4, as it holds. For every sequence of field names, the function returned by
  \<open>getComparisonFunc\<close> returns true on a pair exactly when the two objects agree with
  strict equality on every named field; in particular it returns false on every pair in
  which some named field is an own property with a value other than \<open>undefined\<close> on one
  side and is absent on the other side, where absent means neither an own property nor
  one inherited from \<open>Object.prototype\<close>.
\<close>

theorem comparison_func_agreement:
  "(getComparisonFunc env compareFields a b \<longleftrightarrow>
      (\<forall>field \<in> set compareFields. strict_eq (js_get env a field) (js_get env b field)))
   \<and> (\<forall>field v. field \<in> set compareFields \<and> map_of a field = Some v \<and> v \<noteq> JUndefined
          \<and> \<not> js_in env b field
        \<longrightarrow> \<not> getComparisonFunc env compareFields a b
            \<and> \<not> getComparisonFunc env compareFields b a)"
proof (intro conjI allI impI)
  show "getComparisonFunc env compareFields a b \<longleftrightarrow>
      (\<forall>field \<in> set compareFields. strict_eq (js_get env a field) (js_get env b field))"
    by (simp add: getComparisonFunc_def Cmp_iff)
next
  fix field v
  assume h: "field \<in> set compareFields \<and> map_of a field = Some v \<and> v \<noteq> JUndefined
          \<and> \<not> js_in env b field"
  then have ga: "js_get env a field = v" and gb: "js_get env b field = JUndefined"
    by (simp_all add: js_get_own js_get_absent)
  from h ga gb have "\<not> strict_eq (js_get env a field) (js_get env b field)"
    by (simp add: strict_eq_undefined_right)
  with h show "\<not> getComparisonFunc env compareFields a b"
    by (auto simp: getComparisonFunc_def Cmp_iff)
  from h ga gb have "\<not> strict_eq (js_get env b field) (js_get env a field)"
    by (simp add: strict_eq_undefined_left)
  with h show "\<not> getComparisonFunc env compareFields b a"
    by (auto simp: getComparisonFunc_def Cmp_iff)
qed

text \<open>An alias with a language against one without, compared with and without the language.\<close>

theorem comparison_func_agreement_witness:
  "''languageId'' \<in> set [''name'', ''languageId'']
   \<and> map_of [(''name'', JStr ''x''), (''languageId'', JNum 1)] ''languageId'' = Some (JNum 1)
   \<and> JNum 1 \<noteq> JUndefined
   \<and> \<not> js_in example_env [(''name'', JStr ''x'')] ''languageId''
   \<and> \<not> getComparisonFunc example_env [''name'', ''languageId'']
          [(''name'', JStr ''x''), (''languageId'', JNum 1)] [(''name'', JStr ''x'')]
   \<and> getComparisonFunc example_env [''name'']
          [(''name'', JStr ''x''), (''languageId'', JNum 1)] [(''name'', JStr ''x'')]"
  using comparison_func_agreement [where env = example_env
      and compareFields = "[''name'', ''languageId'']"
      and a = "[(''name'', JStr ''x''), (''languageId'', JNum 1)]"
      and b = "[(''name'', JStr ''x'')]"]
    comparison_func_agreement [where env = example_env and compareFields = "[''name'']"
      and a = "[(''name'', JStr ''x''), (''languageId'', JNum 1)]"
      and b = "[(''name'', JStr ''x'')]"]
  by (simp add: js_get_def js_in_def example_env_def)

text \<open>
  Presence on one side alone does not force inequality. A property that is present and
  holds \<open>undefined\<close> reads like an absent one; and a field that is absent as an own
  property may still be inherited: \<open>constructor\<close>, set to \<open>Object\<close> on one object, is
  read as \<open>Object\<close> on an object that does not have it. The function returns true on
  both pairs.
\<close>

theorem comparison_func_counterexample:
  "map_of [(''x'', JUndefined)] ''x'' = Some JUndefined
   \<and> \<not> js_in example_env [] ''x''
   \<and> getComparisonFunc example_env [''x''] [(''x'', JUndefined)] []
   \<and> map_of [(''constructor'', JObj 1 [])] ''constructor'' = Some (JObj 1 [])
   \<and> JObj 1 [] \<noteq> JUndefined
   \<and> map_of ([] :: obj) ''constructor'' = None
   \<and> getComparisonFunc example_env [''constructor''] [(''constructor'', JObj 1 [])] []"
  by (simp add: getComparisonFunc_def js_get_def js_in_def example_env_def)

section \<open>Properties of the materializer\<close>








lemma map_through_fst: "map (\<lambda>p. g (fst p)) zs = map g (map fst zs)"
  by (induction zs) simp_all

lemma map_fst_zip_upt:
  "map (\<lambda>p. g (fst p)) (zip items [n ..< n + length items]) = map g items"
proof -
  have "map (\<lambda>p. g (fst p)) (zip items [n ..< n + length items])
      = map g (map fst (zip items [n ..< n + length items]))"
    by (rule map_through_fst)
  also have "map fst (zip items [n ..< n + length items]) = items"
    by (rule map_fst_zip) simp
  finally show ?thesis .
qed






lemma plain_name_isKey: "reIsPlainProp s \<Longrightarrow> isKey env s"
  by (simp add: isKey_def)






text \<open>
  With the path \<open>'a.b'\<close> as \<open>idAttribute\<close> the id is read inside the nested object
  of the unchanged item, and deleted inside the nested object of the added one.
\<close>

lemma nested_id_attribute:
  "createNewSetWithItems example_env \<lparr>calls = [], set_seq = 7, item_seq = 40\<rparr> 1 ''AliasSet''
     [[(''a'', JObj 100 [(''b'', JNum 7)]), (''name'', JStr ''x'')]]
     [[(''a'', JObj 101 [(''b'', JNum 8), (''c'', JNum 2)]), (''name'', JStr ''y'')]]
     (Some ''aliases'') (Some ''a.b'')
   = (Inr (Some 7),
      \<lparr>calls = [SaveSet 1 ''AliasSet'' 7, FetchRelated 1 7 ''aliases'',
                 AttachId 1 7 ''aliases'' (JNum 7),
                 CreateItem 1 7 ''aliases''
                   [(''a'', JObj 101 [(''c'', JNum 2)]), (''name'', JStr ''y'')] 40],
       set_seq = 8, item_seq = 41\<rparr>)"
  by (simp add: createNewSetWithItems_def model_save_def related_fetch_def
      collection_attach_def collection_create_def default_id_def js_get_def js_in_def omit_def
      property_def castPath_def isKey_in_def isKey_def reIsPlainProp_def is_word_char_def
      delete_key_def set_key_def baseGet_def example_env_def example_path_def)


text \<open>
  Claim C3. For every call of either operation with a non-empty \<open>itemsAttribute\<close> and
  both partitions empty, the result is \<open>null\<close> and the persistence layer is left as it
  was: no call is made to it.
\<close>

theorem empty_partitions_no_set:
  assumes "rel \<noteq> []"
  shows "createNewSetWithItems env db transacting SetModel [] [] (Some rel) idAttribute
           = (Inr None, db)
       \<and> createNewRelationshipAttributeSetWithItems env schedule db transacting SetModel [] []
             (Some rel) idAttribute
           = (Inr None, db)
       \<and> new_calls db (snd (createNewSetWithItems env db transacting SetModel [] [] (Some rel)
             idAttribute)) = []
       \<and> new_calls db (snd (createNewRelationshipAttributeSetWithItems env schedule db
             transacting SetModel [] [] (Some rel) idAttribute)) = []"
  using assms
  by (simp add: createNewSetWithItems_def createNewRelationshipAttributeSetWithItems_def
      new_calls_def)

theorem empty_partitions_no_set_witness:
  "''aliases'' \<noteq> []
   \<and> createNewSetWithItems example_env \<lparr>calls = [], set_seq = 7, item_seq = 40\<rparr> 1
         ''AliasSet'' [] [] (Some ''aliases'') None
       = (Inr None, \<lparr>calls = [], set_seq = 7, item_seq = 40\<rparr>)
   \<and> createNewRelationshipAttributeSetWithItems example_env []
         \<lparr>calls = [], set_seq = 7, item_seq = 40\<rparr> 1
         ''RelationshipAttributeSet'' [] [] (Some ''relationshipAttributes'') None
       = (Inr None, \<lparr>calls = [], set_seq = 7, item_seq = 40\<rparr>)"
  using empty_partitions_no_set [where env = example_env and rel = "''aliases''"
      and db = "\<lparr>calls = [], set_seq = 7, item_seq = 40\<rparr>" and transacting = 1
      and SetModel = "''AliasSet''" and idAttribute = None]
    empty_partitions_no_set [where env = example_env and schedule = "[]"
      and rel = "''relationshipAttributes''"
      and db = "\<lparr>calls = [], set_seq = 7, item_seq = 40\<rparr>" and transacting = 1
      and SetModel = "''RelationshipAttributeSet''" and idAttribute = None]
  by simp

text \<open>
  Claim C6. For every call of either operation in which \<open>itemsAttribute\<close> is omitted or
  the empty string, the operation fails with the \<open>itemsAttribute must be set\<close> error
  and the persistence layer is left as it was, whatever the partitions are.
\<close>

theorem missing_itemsAttribute_fails:
  "createNewSetWithItems env db transacting SetModel unchangedItems addedItems None idAttribute
     = (Inl (Error ''itemsAttribute must be set in createNewSetWithItems''), db)
   \<and> createNewSetWithItems env db transacting SetModel unchangedItems addedItems (Some [])
       idAttribute
     = (Inl (Error ''itemsAttribute must be set in createNewSetWithItems''), db)
   \<and> createNewRelationshipAttributeSetWithItems env schedule db transacting SetModel
       unchangedItems addedItems None idAttribute
     = (Inl (Error
          ''itemsAttribute must be set in createNewRelationshipAttributeSetWithItems''), db)
   \<and> createNewRelationshipAttributeSetWithItems env schedule db transacting SetModel
       unchangedItems addedItems (Some []) idAttribute
     = (Inl (Error
          ''itemsAttribute must be set in createNewRelationshipAttributeSetWithItems''), db)"
  by (simp add: createNewSetWithItems_def createNewRelationshipAttributeSetWithItems_def)

text \<open>
  Claim C10. In both operations the \<open>itemsAttribute\<close> check comes before the
  empty-partition short-circuit: with \<open>itemsAttribute\<close> omitted or empty and both
  partitions empty, the operation raises the \<open>itemsAttribute\<close> error rather than
  returning \<open>null\<close>.
\<close>

theorem check_before_short_circuit:
  "fst (createNewSetWithItems env db transacting SetModel [] [] None idAttribute)
     = Inl (Error ''itemsAttribute must be set in createNewSetWithItems'')
   \<and> fst (createNewSetWithItems env db transacting SetModel [] [] (Some []) idAttribute)
     = Inl (Error ''itemsAttribute must be set in createNewSetWithItems'')
   \<and> fst (createNewRelationshipAttributeSetWithItems env schedule db transacting SetModel [] []
          None idAttribute)
     = Inl (Error ''itemsAttribute must be set in createNewRelationshipAttributeSetWithItems'')
   \<and> fst (createNewRelationshipAttributeSetWithItems env schedule db transacting SetModel [] []
          (Some []) idAttribute)
     = Inl (Error ''itemsAttribute must be set in createNewRelationshipAttributeSetWithItems'')"
  by (simp add: createNewSetWithItems_def createNewRelationshipAttributeSetWithItems_def)














end
